theory Spec2Isabelle
  imports Main "HOL-Library.Word"
begin

section \<open>JavaScript values of the dashboard\<close>

text \<open>
  A JavaScript string is a sequence of UTF-16 code units. \<open>js\<close> writes an ASCII
  literal as such a sequence.
\<close>

type_synonym jsstring = "16 word list"

definition js :: "string \<Rightarrow> jsstring" where
  "js s = map (\<lambda>c. of_nat (of_char c)) s"

text \<open>
  \<open>String.prototype.trim\<close> removes leading and trailing WhiteSpace and
  LineTerminator code points (ECMAScript): TAB, LF, VT, FF, CR, SP, NBSP, U+1680,
  U+2000 to U+200A, LS, PS, U+202F, U+205F, U+3000 and U+FEFF.
\<close>

definition is_ws :: "16 word \<Rightarrow> bool" where
  "is_ws c \<longleftrightarrow>
     c = 0x9 \<or> c = 0xA \<or> c = 0xB \<or> c = 0xC \<or> c = 0xD \<or> c = 0x20 \<or> c = 0xA0 \<or>
     c = 0x1680 \<or> (0x2000 \<le> c \<and> c \<le> 0x200A) \<or> c = 0x2028 \<or> c = 0x2029 \<or>
     c = 0x202F \<or> c = 0x205F \<or> c = 0x3000 \<or> c = 0xFEFF"

definition strip :: "('a \<Rightarrow> bool) \<Rightarrow> 'a list \<Rightarrow> 'a list" where
  "strip ws s = rev (dropWhile ws (rev (dropWhile ws s)))"

definition trim :: "jsstring \<Rightarrow> jsstring" where
  "trim s = strip is_ws s"

text \<open>\<open>xs.slice(-n)\<close>: the last \<open>n\<close> elements, all of them when there are fewer.\<close>

definition slice_last :: "nat \<Rightarrow> 'a list \<Rightarrow> 'a list" where
  "slice_last n xs = drop (length xs - n) xs"

text \<open>
  \<open>s.split(c)\<close> for a one-character separator: the pieces between the separators,
  \<open>[""]\<close> for the empty string. The second argument collects the current piece.
\<close>

fun split_acc :: "'a \<Rightarrow> 'a list \<Rightarrow> 'a list \<Rightarrow> 'a list list" where
  "split_acc c cur [] = [rev cur]"
| "split_acc c cur (x # xs) =
     (if x = c then rev cur # split_acc c [] xs else split_acc c (x # cur) xs)"

definition split :: "'a \<Rightarrow> 'a list \<Rightarrow> 'a list list" where
  "split c s = split_acc c [] s"

text \<open>\<open>xs.join(sep)\<close> on an array of strings.\<close>

fun join :: "'a list \<Rightarrow> 'a list list \<Rightarrow> 'a list" where
  "join sep [] = []"
| "join sep [x] = x"
| "join sep (x # y # ys) = x @ sep @ join sep (y # ys)"

text \<open>
  A parsed JSON value. An object is the list of its properties. Of a number the code
  below only observes whether it is zero.
\<close>

datatype json =
    JNull
  | JBool bool
  | JNum int
  | JStr jsstring
  | JArr "json list"
  | JObj "(jsstring \<times> json) list"

text \<open>
  \<open>v.k\<close> for the property names the code reads (message, status, data, content):
  the property of an object, \<open>undefined\<close> (None) on every other value; the
  caller decides what reading a property of \<open>null\<close> does (\<open>?.\<close> gives
  \<open>undefined\<close>, \<open>.\<close> throws).
\<close>

fun get_prop :: "json \<Rightarrow> jsstring \<Rightarrow> json option" where
  "get_prop (JObj kvs) k = map_of kvs k"
| "get_prop _ k = None"

text \<open>JavaScript truthiness of a value that may be \<open>undefined\<close>.\<close>

fun truthy :: "json option \<Rightarrow> bool" where
  "truthy None = False"
| "truthy (Some JNull) = False"
| "truthy (Some (JBool b)) = b"
| "truthy (Some (JNum n)) = (n \<noteq> 0)"
| "truthy (Some (JStr s)) = (s \<noteq> [])"
| "truthy (Some (JArr _)) = True"
| "truthy (Some (JObj _)) = True"

text \<open>\<open>a ?? b\<close>: \<open>b\<close> when \<open>a\<close> is \<open>undefined\<close> or \<open>null\<close>.\<close>

fun nullish_or :: "json option \<Rightarrow> json \<Rightarrow> json" where
  "nullish_or None b = b"
| "nullish_or (Some JNull) b = b"
| "nullish_or (Some a) b = a"

section \<open>The API helper: \<open>api\<close> of app.js\<close>

text \<open>
  What \<open>fetch\<close> resolves to: the HTTP status and the body, None when
  \<open>res.json()\<close> rejects (the \<open>catch\<close> turns that into \<open>null\<close>).
  A \<open>fetch\<close> that rejects (no response at all) rejects \<open>api\<close> as well.
\<close>

record response =
  status :: nat
  body :: "json option"

datatype fetch_result = Rejected | Resolved response

text \<open>\<open>res.ok\<close> is true for the statuses 200 to 299.\<close>

definition ok :: "response \<Rightarrow> bool" where
  "ok res \<longleftrightarrow> 200 \<le> status res \<and> status res \<le> 299"

text \<open>
  The argument of \<open>new Error(...)\<close>: a value taken from the body, the text
  \<open>HTTP <status>\<close>, or the text \<open>Unknown error\<close>.
\<close>

datatype error_message = FromBody json | HttpStatus nat | UnknownError

datatype js_error =
    Error error_message
  | FetchRejected
  | TypeError

text \<open>\<open>const json = await res.json().catch(() => null)\<close>\<close>

definition parsed :: "response \<Rightarrow> json" where
  "parsed res = (case body res of None \<Rightarrow> JNull | Some j \<Rightarrow> j)"

definition api :: "fetch_result \<Rightarrow> js_error + json" where
  "api fr =
     (case fr of
        Rejected \<Rightarrow> Inl FetchRejected
      | Resolved res \<Rightarrow>
          (let json = parsed res in
           if \<not> ok res then
             Inl (Error (if truthy (get_prop json (js ''message''))
                         then FromBody (the (get_prop json (js ''message'')))
                         else HttpStatus (status res)))
           else if get_prop json (js ''status'') = Some (JStr (js ''error'')) then
             Inl (Error (if truthy (get_prop json (js ''message''))
                         then FromBody (the (get_prop json (js ''message'')))
                         else UnknownError))
           else Inr (nullish_or (get_prop json (js ''data'')) json)))"

section \<open>The router guard: \<open>router.beforeEach\<close> of router/index.ts\<close>

text \<open>
  The target of a navigation: its path and \<open>to.meta.requiresAuth\<close>, None when no
  matched route record sets it. The auth store holds the token read from local
  storage, None for \<open>null\<close>; \<open>isAuthenticated\<close> is \<open>!!token.value\<close>.
\<close>

record route =
  path :: jsstring
  requiresAuth :: "bool option"

record auth_store =
  token :: "jsstring option"

definition isAuthenticated :: "auth_store \<Rightarrow> bool" where
  "isAuthenticated s = (case token s of None \<Rightarrow> False | Some t \<Rightarrow> t \<noteq> [])"

datatype navigation = Next | NextTo jsstring

definition beforeEach :: "route \<Rightarrow> auth_store \<Rightarrow> navigation" where
  "beforeEach to s =
     (if requiresAuth to = Some True \<and> \<not> isAuthenticated s then NextTo (js ''/login'')
      else if path to = js ''/login'' \<and> isAuthenticated s then NextTo (js ''/'')
      else Next)"

section \<open>The chat view: \<open>app.sendChat\<close> of app.js\<close>

text \<open>
  An entry of \<open>app.chatHistory\<close>. The content is a value (the text typed by the
  user, or \<open>data.content\<close> of the answer, None when that is \<open>undefined\<close>) or
  the text built from the message of a caught error. The \<open>time\<close>
  stamp of an entry is only displayed and never sent; it is left out.
\<close>

datatype content = Value "json option" | ErrorText js_error

record chat_msg =
  role :: jsstring
  content :: content

record chat_body =
  message :: jsstring
  history :: "chat_msg list"
  provider_id :: "jsstring option"

text \<open>
  The request body, built from the chat history after the user's entry has been
  pushed: \<open>provider_id\<close> is set only when the selector holds a non-empty value.
\<close>

definition non_system :: "chat_msg \<Rightarrow> bool" where
  "non_system m \<longleftrightarrow> role m \<noteq> js ''system''"

definition chat_request :: "chat_msg list \<Rightarrow> jsstring \<Rightarrow> jsstring \<Rightarrow> chat_body" where
  "chat_request chatHistory msg providerId =
     \<lparr>message = msg,
      history = slice_last 20 (filter non_system chatHistory),
      provider_id = (if providerId \<noteq> [] then Some providerId else None)\<rparr>"

text \<open>
  The state \<open>sendChat\<close> works on: the chat history, the notifications shown, and
  the bodies posted to \<open>/api/chat\<close> so far.
\<close>

record app =
  chatHistory :: "chat_msg list"
  notifications :: "js_error list"
  requests :: "chat_body list"

text \<open>
  \<open>sendChat\<close>, with the server as a function from the request body to the outcome
  of \<open>fetch\<close>. Reading \<open>data.content\<close> of \<open>null\<close> throws a TypeError inside
  the \<open>try\<close> block, which the \<open>catch\<close> handles like an error of \<open>api\<close>.
\<close>

definition sendChat :: "(chat_body \<Rightarrow> fetch_result) \<Rightarrow> jsstring \<Rightarrow> jsstring \<Rightarrow> app \<Rightarrow> app" where
  "sendChat server input providerId a =
     (let msg = trim input in
      if msg = [] then a
      else
        let pushed = chatHistory a @ [\<lparr>role = js ''user'', content = Value (Some (JStr msg))\<rparr>];
            body = chat_request pushed msg providerId;
            outcome = (case api (server body) of
                         Inl e \<Rightarrow> Inl e
                       | Inr JNull \<Rightarrow> Inl TypeError
                       | Inr data \<Rightarrow> Inr (get_prop data (js ''content'')))
        in case outcome of
             Inr c \<Rightarrow>
               a\<lparr>chatHistory := pushed @ [\<lparr>role = js ''assistant'', content = Value c\<rparr>],
                 requests := requests a @ [body]\<rparr>
           | Inl e \<Rightarrow>
               a\<lparr>chatHistory := pushed @ [\<lparr>role = js ''assistant'', content = ErrorText e\<rparr>],
                 notifications := notifications a @ [e],
                 requests := requests a @ [body]\<rparr>)"

text \<open>A server that cannot be reached: every \<open>fetch\<close> rejects.\<close>

definition unreachable :: "chat_body \<Rightarrow> fetch_result" where
  "unreachable b = Rejected"



section \<open>Personas: \<open>savePersona\<close>, \<open>deletePersona\<close>, \<open>setDefaultPersona\<close>, \<open>loadPersonas\<close>\<close>

text \<open>
  The part of the server configuration the persona view reads and writes. A
  \<open>PUT /api/config\<close> with a \<open>personas\<close> or a \<open>default_persona\<close> member replaces
  that member. An API call that fails leaves the configuration as it is.
\<close>

record persona =
  name :: jsstring
  description :: jsstring
  prompt :: jsstring

record config =
  personas :: "persona list"
  default_persona :: jsstring

text \<open>
  \<open>savePersona\<close>: \<open>idx\<close> is \<open>app.modals._editingPersonaIdx\<close> (None for
  \<open>null\<close>), the three strings are the form fields.
\<close>

definition savePersona :: "int option \<Rightarrow> jsstring \<Rightarrow> jsstring \<Rightarrow> jsstring \<Rightarrow> config \<Rightarrow> config" where
  "savePersona idx name_field desc_field prompt_field cfg =
     (let name = trim name_field; desc = trim desc_field; prompt = trim prompt_field in
      if name = [] then cfg
      else if prompt = [] then cfg
      else
        let entry = \<lparr>name = name, description = desc, prompt = prompt\<rparr> in
        case idx of
          Some i \<Rightarrow>
            if 0 \<le> i \<and> i < int (length (personas cfg))
            then cfg\<lparr>personas := (personas cfg)[nat i := entry]\<rparr>
            else cfg\<lparr>personas := personas cfg @ [entry]\<rparr>
        | None \<Rightarrow> cfg\<lparr>personas := personas cfg @ [entry]\<rparr>)"

text \<open>\<open>deletePersona\<close>, once the user has confirmed: \<open>personas.splice(idx, 1)\<close>.\<close>

definition deletePersona :: "int \<Rightarrow> config \<Rightarrow> config" where
  "deletePersona idx cfg =
     (if 0 \<le> idx \<and> idx < int (length (personas cfg))
      then cfg\<lparr>personas := take (nat idx) (personas cfg) @ drop (Suc (nat idx)) (personas cfg)\<rparr>
      else cfg)"

definition setDefaultPersona :: "jsstring \<Rightarrow> config \<Rightarrow> config" where
  "setDefaultPersona n cfg = cfg\<lparr>default_persona := n\<rparr>"

text \<open>\<open>loadPersonas\<close> marks a persona as the one in use when \<open>p.name === defaultName\<close>.\<close>

definition isActive :: "config \<Rightarrow> persona \<Rightarrow> bool" where
  "isActive cfg p \<longleftrightarrow> name p = default_persona cfg"

datatype persona_op =
    Save "int option" jsstring jsstring jsstring
  | Delete int
  | SetDefault jsstring

fun apply_op :: "persona_op \<Rightarrow> config \<Rightarrow> config" where
  "apply_op (Save idx n d p) cfg = savePersona idx n d p cfg"
| "apply_op (Delete idx) cfg = deletePersona idx cfg"
| "apply_op (SetDefault n) cfg = setDefaultPersona n cfg"

fun run_ops :: "persona_op list \<Rightarrow> config \<Rightarrow> config" where
  "run_ops [] cfg = cfg"
| "run_ops (op # ops) cfg = run_ops ops (apply_op op cfg)"

text \<open>
  An operation keeps the names apart when a save uses a name that no other persona
  has: none at all when it appends, none but the replaced one when it replaces.
\<close>

definition fresh_save :: "int option \<Rightarrow> jsstring \<Rightarrow> config \<Rightarrow> bool" where
  "fresh_save idx name_field cfg =
     (case idx of
        Some i \<Rightarrow>
          if 0 \<le> i \<and> i < int (length (personas cfg))
          then trim name_field \<notin> set (map name (take (nat i) (personas cfg) @ drop (Suc (nat i)) (personas cfg)))
          else trim name_field \<notin> set (map name (personas cfg))
      | None \<Rightarrow> trim name_field \<notin> set (map name (personas cfg)))"

fun fresh_ops :: "persona_op list \<Rightarrow> config \<Rightarrow> bool" where
  "fresh_ops [] cfg = True"
| "fresh_ops (Save idx n d p # ops) cfg =
     (fresh_save idx n cfg \<and> fresh_ops ops (apply_op (Save idx n d p) cfg))"
| "fresh_ops (op # ops) cfg = fresh_ops ops (apply_op op cfg)"

section \<open>Wake prefixes in the settings view: \<open>loadSettings\<close> and \<open>saveSettings\<close>\<close>

text \<open>
  Between \<open>loadSettings\<close> and \<open>saveSettings\<close> the string lives in the
  \<open>value\<close> of the form control \<open>conf-wake-prefixes\<close>. The markup of the
  settings view is not among the files, so the kind of the control is a parameter: a
  single-line text input, whose value has CR and LF stripped when it is set, or a
  textarea, whose value is read with every CRLF pair and every other CR turned into
  LF (HTML standard, value sanitization and newline normalization).
\<close>

datatype control = TextInput | TextArea

definition strip_newlines :: "jsstring \<Rightarrow> jsstring" where
  "strip_newlines s = filter (\<lambda>c. c \<noteq> 0xA \<and> c \<noteq> 0xD) s"

fun normalize_newlines :: "jsstring \<Rightarrow> jsstring" where
  "normalize_newlines [] = []"
| "normalize_newlines [c] = (if c = 0xD then [0xA] else [c])"
| "normalize_newlines (c # d # s) =
     (if c = 0xD \<and> d = 0xA then 0xA # normalize_newlines s
      else if c = 0xD then 0xA # normalize_newlines (d # s)
      else c # normalize_newlines (d # s))"

text \<open>What reading \<open>value\<close> gives after \<open>value\<close> has been set to \<open>s\<close>.\<close>

definition field_value :: "control \<Rightarrow> jsstring \<Rightarrow> jsstring" where
  "field_value kind s = (case kind of TextInput \<Rightarrow> strip_newlines s | TextArea \<Rightarrow> normalize_newlines s)"

text \<open>
  \<open>loadSettings\<close> sets the field to \<open>wake_prefixes.join(", ")\<close>; the result
  is what the field then holds. \<open>saveSettings\<close> reads the field with
  \<open>.split(",").map(s => s.trim()).filter(Boolean)\<close>.
\<close>

definition loadSettings_wake_prefixes :: "control \<Rightarrow> jsstring list \<Rightarrow> jsstring" where
  "loadSettings_wake_prefixes kind wake_prefixes = field_value kind (join (js '', '') wake_prefixes)"

definition saveSettings_wake_prefixes :: "jsstring \<Rightarrow> jsstring list" where
  "saveSettings_wake_prefixes field = filter (\<lambda>s. s \<noteq> []) (map trim (split 0x2C field))"

section \<open>The message pipeline\<close>

text \<open>
  The dispatcher, the waking check, the agent stage, the orchestrator and the reply
  rendering belong to the server, whose code is not part of the files at hand. Each
  definition of this section is modelled from the specification, section by section.
  Texts are sequences of Unicode code points; \<open>ustr\<close> writes an ASCII literal.
\<close>

type_synonym ustring = "nat list"

definition ustr :: "string \<Rightarrow> ustring" where
  "ustr s = map of_char s"

subsection \<open>Data model\<close>

text \<open>
  Modelled from the spec: the data model of section 3 (Message, ConversationTurn,
  ToolCall, Reply, ProviderConfig), whose declarations are missing from the files.
  The result slot of a ToolCall is the tool turn that answers it.
\<close>

datatype component = Text ustring | Mention ustring | Reply ustring | Face ustring | Image ustring

record message =
  msg_id :: ustring
  platform_id :: ustring
  chat_id :: ustring
  sender_id :: ustring
  is_private :: bool
  raw_text :: ustring
  message_chain :: "component list"
  received_at :: nat

datatype turn_role = System | User | Assistant | Tool

record tool_call =
  call_id :: ustring
  function_name :: ustring
  arguments :: ustring

record turn =
  turn_role :: turn_role
  turn_content :: "ustring option"
  tool_calls :: "tool_call list"
  tool_call_id :: "ustring option"




subsection \<open>EventDispatcher\<close>

text \<open>
  Modelled from the spec: the EventDispatcher of section 4.1, which is missing from
  the files. The dispatcher is the list of subscriptions in registration order.
  \<open>Subscribe\<close> appends one; \<open>handlers\<close> are those of one kind, in registration
  order; \<open>unsubscribed\<close> is the query for the kinds, among the given ones, that
  have no subscriber.
\<close>

datatype event_kind = MessageReceived | AdapterLifecycle

type_synonym 'h dispatcher = "(event_kind \<times> 'h) list"

definition subscribe :: "event_kind \<Rightarrow> 'h \<Rightarrow> 'h dispatcher \<Rightarrow> 'h dispatcher" where
  "subscribe k h d = d @ [(k, h)]"

definition handlers :: "'h dispatcher \<Rightarrow> event_kind \<Rightarrow> 'h list" where
  "handlers d k = map snd (filter (\<lambda>s. fst s = k) d)"

definition unsubscribed :: "event_kind list \<Rightarrow> 'h dispatcher \<Rightarrow> event_kind list" where
  "unsubscribed kinds d = filter (\<lambda>k. handlers d k = []) kinds"

text \<open>
  Modelled from the spec: the bootstrap sequence of sections 4.1 and 7, which is
  missing from the files. All subscriptions of the wiring are made in order, then the
  query is asked for the required kinds: a required kind without subscriber is the
  fatal \<open>DispatcherWiringError\<close>, and only otherwise does the process reach the
  steady state, in which adapters publish.
\<close>

datatype startup_error = DispatcherWiringError "event_kind list"

datatype 'h process = Steady "'h dispatcher"

definition bootstrap :: "(event_kind \<times> 'h) list \<Rightarrow> 'h dispatcher" where
  "bootstrap wiring = fold (\<lambda>s d. subscribe (fst s) (snd s) d) wiring []"

definition startup :: "event_kind list \<Rightarrow> (event_kind \<times> 'h) list \<Rightarrow> startup_error + 'h process" where
  "startup required wiring =
     (let d = bootstrap wiring in
      if unsubscribed required d = [] then Inr (Steady d)
      else Inl (DispatcherWiringError (unsubscribed required d)))"

subsection \<open>WakingCheckStage\<close>

record wake_config =
  wake_prefixes :: "ustring list"
  wake_words :: "ustring list"

text \<open>
  Modelled from the spec: "raw_text starts with a prefix" and "raw_text contains a
  wake word as a substring" of section 4.2.
\<close>

definition starts_with :: "'a list \<Rightarrow> 'a list \<Rightarrow> bool" where
  "starts_with t p \<longleftrightarrow> take (length p) t = p"

fun contains :: "'a list \<Rightarrow> 'a list \<Rightarrow> bool" where
  "contains [] w = (w = [])"
| "contains (x # xs) w = (starts_with (x # xs) w \<or> contains xs w)"

text \<open>
  Modelled from the spec: the WakingCheckStage of section 4.2, which is missing from
  the files. The result is the clean text when the message wakes the agent and None
  when it does not. The spec does not say which characters are whitespace, so the
  check takes that as the parameter \<open>ws\<close>.
\<close>

definition waking_check :: "(nat \<Rightarrow> bool) \<Rightarrow> ustring \<Rightarrow> wake_config \<Rightarrow> message \<Rightarrow> ustring option" where
  "waking_check ws self_id cfg m =
     (if Mention self_id \<in> set (message_chain m) then Some (raw_text m)
      else
        case find (starts_with (raw_text m)) (wake_prefixes cfg) of
          Some p \<Rightarrow> Some (strip ws (drop (length p) (raw_text m)))
        | None \<Rightarrow>
            if \<exists>w \<in> set (wake_words cfg). contains (raw_text m) w then Some (raw_text m)
            else if is_private m then Some (strip ws (raw_text m))
            else None)"

subsection \<open>AgentOrchestrator\<close>

text \<open>
  The provider and the tools are external. A provider answers its \<open>n\<close>-th call
  (counted from 0) on a turn sequence, so that a retry may get another answer; a
  tool registry maps a function name to the tool's execution, if there is one.
\<close>

datatype completion = Content ustring | ToolCalls "tool_call list" | ProviderCallError

type_synonym provider = "nat \<Rightarrow> turn list \<Rightarrow> completion"

datatype tool_outcome = ToolResult ustring | ToolExecutionError ustring

type_synonym tool_registry = "ustring \<Rightarrow> (ustring \<Rightarrow> tool_outcome) option"

record orchestrator_config =
  max_tool_rounds :: nat
  max_retries :: nat

datatype terminal = Done ustring | Failed | Capped

text \<open>
  What a run returns: the terminal state, the turn sequence built, the turn sequences
  sent to the provider (one per call, in order), and the number of rounds run.
\<close>

record run_result =
  final_state :: terminal
  final_turns :: "turn list"
  provider_calls :: "turn list list"
  rounds :: nat

text \<open>
  Modelled from the spec: the turns that section 4.4 appends. The assistant turn
  carries the tool calls verbatim and no content; a tool turn carries the id of its
  call and the stringified result, or the error payload when the tool fails or the
  registry has no tool of that name.
\<close>

definition assistant_turn :: "tool_call list \<Rightarrow> turn" where
  "assistant_turn tcs =
     \<lparr>turn_role = Assistant, turn_content = None, tool_calls = tcs, tool_call_id = None\<rparr>"

definition execute :: "tool_registry \<Rightarrow> tool_call \<Rightarrow> tool_outcome" where
  "execute tools tc =
     (case tools (function_name tc) of
        None \<Rightarrow> ToolExecutionError (function_name tc)
      | Some run \<Rightarrow> run (arguments tc))"

definition tool_turn :: "tool_registry \<Rightarrow> tool_call \<Rightarrow> turn" where
  "tool_turn tools tc =
     \<lparr>turn_role = Tool,
      turn_content = Some (case execute tools tc of ToolResult r \<Rightarrow> r | ToolExecutionError e \<Rightarrow> e),
      tool_calls = [],
      tool_call_id = Some (call_id tc)\<rparr>"

text \<open>
  Modelled from the spec: the state \<open>AwaitingToolResults\<close> of section 4.4, which
  is missing from the files. For each tool call, in the order issued, one tool turn
  is appended, with the result or with the error payload; a tool that the registry
  does not have is a tool-level failure.
\<close>

fun awaiting_tool_results :: "tool_registry \<Rightarrow> tool_call list \<Rightarrow> turn list \<Rightarrow> turn list" where
  "awaiting_tool_results tools [] turns = turns"
| "awaiting_tool_results tools (tc # tcs) turns =
     awaiting_tool_results tools tcs (turns @ [tool_turn tools tc])"

text \<open>
  Modelled from the spec: the provider call of the state \<open>Calling\<close> with its
  retries, which is missing from the files. A failed call is retried up to
  \<open>retries\<close> more times; an answer with neither content nor any tool call is a
  malformed response, that is a failed call. The result is the log of calls, extended,
  and the usable answer if there was one.
\<close>

fun complete ::
  "nat \<Rightarrow> provider \<Rightarrow> turn list list \<Rightarrow> turn list \<Rightarrow> turn list list \<times> (ustring + tool_call list) option" where
  "complete retries p log turns =
     (case p (length log) turns of
        Content c \<Rightarrow> (log @ [turns], Some (Inl c))
      | ToolCalls (tc # tcs) \<Rightarrow> (log @ [turns], Some (Inr (tc # tcs)))
      | _ \<Rightarrow>
          (case retries of
             0 \<Rightarrow> (log @ [turns], None)
           | Suc r \<Rightarrow> complete r p (log @ [turns]) turns))"

text \<open>
  Modelled from the spec: the state \<open>Calling\<close> and the loop of section 4.4, which
  are missing from the files. The round counter is 1 at the first entry of
  \<open>Calling\<close> and is incremented at each later entry; an entry whose counter
  exceeds \<open>max_tool_rounds\<close> goes to \<open>Capped\<close> without calling the provider.
\<close>

function calling ::
  "orchestrator_config \<Rightarrow> provider \<Rightarrow> tool_registry \<Rightarrow> nat \<Rightarrow> turn list list \<Rightarrow> turn list \<Rightarrow> run_result" where
  "calling cfg p tools round log turns =
     (if max_tool_rounds cfg < round then
        \<lparr>final_state = Capped, final_turns = turns, provider_calls = log, rounds = round - 1\<rparr>
      else
        case complete (max_retries cfg) p log turns of
          (log', None) \<Rightarrow>
            \<lparr>final_state = Failed, final_turns = turns, provider_calls = log', rounds = round\<rparr>
        | (log', Some (Inl c)) \<Rightarrow>
            \<lparr>final_state = Done c, final_turns = turns, provider_calls = log', rounds = round\<rparr>
        | (log', Some (Inr tcs)) \<Rightarrow>
            calling cfg p tools (Suc round) log'
              (awaiting_tool_results tools tcs (turns @ [assistant_turn tcs])))"
  by pat_completeness auto
termination
  by (relation "measure (\<lambda>(cfg, p, tools, round, log, turns). Suc (max_tool_rounds cfg) - round)") auto

declare calling.simps [simp del]

text \<open>
  Modelled from the spec: a run of the orchestrator on a conversation, which enters
  \<open>Calling\<close> for the first time, with no call made so far.
\<close>

definition orchestrate :: "orchestrator_config \<Rightarrow> provider \<Rightarrow> tool_registry \<Rightarrow> turn list \<Rightarrow> run_result" where
  "orchestrate cfg p tools conversation = calling cfg p tools 1 [] conversation"

text \<open>
  Modelled from the spec: the adjacency rule of section 4.4 as a check of a turn
  sequence. The first argument of \<open>expects\<close>
  holds the ids of the tool calls whose results are still to come. While there are
  some, the next turn must be the tool turn of the first; when there are none, the
  next turn must not be a tool turn, and an assistant turn makes its tool calls the
  expected ones.
\<close>

fun expects :: "ustring list \<Rightarrow> turn list \<Rightarrow> bool" where
  "expects ids [] = (ids = [])"
| "expects [] (t # ts) =
     (turn_role t \<noteq> Tool \<and>
      expects (if turn_role t = Assistant then map call_id (tool_calls t) else []) ts)"
| "expects (i # ids) (t # ts) =
     (turn_role t = Tool \<and> tool_call_id t = Some i \<and> expects ids ts)"

definition adjacent :: "turn list \<Rightarrow> bool" where
  "adjacent ts = expects [] ts"

text \<open>
  Modelled from the spec: the same rule in the words of section 3: every tool turn has, before it, an
  assistant turn that carries its id among its tool calls, and only tool turns lie
  between the two.
\<close>

definition anchored :: "turn list \<Rightarrow> bool" where
  "anchored ts \<longleftrightarrow>
     (\<forall>pre t post. ts = pre @ t # post \<and> turn_role t = Tool \<longrightarrow>
        (\<exists>before a results.
           pre = before @ a # results \<and> turn_role a = Assistant \<and>
           tool_call_id t \<in> set (map (\<lambda>c. Some (call_id c)) (tool_calls a)) \<and>
           (\<forall>r \<in> set results. turn_role r = Tool)))"

subsection \<open>AgentProcessingStage and ReplyRenderStage\<close>



definition user_turn :: "ustring \<Rightarrow> turn" where
  "user_turn s = \<lparr>turn_role = User, turn_content = Some s, tool_calls = [], tool_call_id = None\<rparr>"


text \<open>
  Modelled from the spec: the localized explanatory texts of sections 4.3, 4.4 and 7,
  and the text by which the caller surfaces the terminal state of a run.
\<close>

record explanations =
  no_provider :: ustring
  provider_failed :: ustring
  tool_limit :: ustring

definition result_text :: "explanations \<Rightarrow> run_result \<Rightarrow> ustring" where
  "result_text ex r =
     (case final_state r of
        Done c \<Rightarrow> c
      | Failed \<Rightarrow> provider_failed ex
      | Capped \<Rightarrow> tool_limit ex)"







subsection \<open>The examples of section 8\<close>

text \<open>
  Whitespace taken as the space character alone; the provider and the tool of the
  tool-call round trip (property 5); the provider that always asks for a tool
  (property 6).
\<close>

definition space_only :: "nat \<Rightarrow> bool" where
  "space_only c \<longleftrightarrow> c = 32"

definition get_time_call :: tool_call where
  "get_time_call = \<lparr>call_id = ustr ''1'', function_name = ustr ''get_time'', arguments = []\<rparr>"

definition clock_provider :: provider where
  "clock_provider n ts = (if n = 0 then ToolCalls [get_time_call] else Content (ustr ''It is 12:00''))"

definition clock_tools :: tool_registry where
  "clock_tools f = (if f = ustr ''get_time'' then Some (\<lambda>args. ToolResult (ustr ''12:00'')) else None)"

definition looping_provider :: provider where
  "looping_provider n ts = ToolCalls [get_time_call]"








definition group_message :: "ustring \<Rightarrow> component list \<Rightarrow> message" where
  "group_message t chain =
     \<lparr>msg_id = ustr ''m1'', platform_id = ustr ''telegram'', chat_id = ustr ''c1'',
      sender_id = ustr ''u1'', is_private = False, raw_text = t, message_chain = chain,
      received_at = 0\<rparr>"

section \<open>The router guard\<close>

text \<open>
  Claim C10. For every navigation, the guard redirects to \<open>/login\<close> whenever the
  target requires authentication and no token is stored, redirects to \<open>/\<close>
  whenever the target is \<open>/login\<close> and a token is stored, and lets every other
  navigation proceed unchanged; so a navigation that proceeds to a target requiring
  authentication has a stored token. A token is stored when the store's token is a
  non-empty string, which is what \<open>isAuthenticated\<close> reads.
\<close>

theorem router_guard:
  "(requiresAuth to = Some True \<and> \<not> isAuthenticated s \<longrightarrow>
      beforeEach to s = NextTo (js ''/login'')) \<and>
   (path to = js ''/login'' \<and> isAuthenticated s \<longrightarrow>
      beforeEach to s = NextTo (js ''/'')) \<and>
   (\<not> (requiresAuth to = Some True \<and> \<not> isAuthenticated s) \<and>
    \<not> (path to = js ''/login'' \<and> isAuthenticated s) \<longrightarrow>
      beforeEach to s = Next) \<and>
   (beforeEach to s = Next \<and> requiresAuth to = Some True \<longrightarrow> isAuthenticated s)"
  by (simp add: beforeEach_def)

text \<open>
  The guard on four navigations: to a dashboard view without token, to the login
  page with a token, to the login page without token, to a dashboard view with a
  token.
\<close>

theorem router_guard_witness:
  "beforeEach \<lparr>path = js ''/providers'', requiresAuth = Some True\<rparr> \<lparr>token = None\<rparr> =
     NextTo (js ''/login'') \<and>
   beforeEach \<lparr>path = js ''/login'', requiresAuth = Some False\<rparr> \<lparr>token = Some (js ''t0k'')\<rparr> =
     NextTo (js ''/'') \<and>
   beforeEach \<lparr>path = js ''/login'', requiresAuth = Some False\<rparr> \<lparr>token = None\<rparr> = Next \<and>
   beforeEach \<lparr>path = js ''/providers'', requiresAuth = Some True\<rparr> \<lparr>token = Some (js ''t0k'')\<rparr> =
     Next \<and>
   isAuthenticated \<lparr>token = Some (js ''t0k'')\<rparr>"
  using router_guard [of "\<lparr>path = js ''/providers'', requiresAuth = Some True\<rparr>" "\<lparr>token = None\<rparr>"]
        router_guard [of "\<lparr>path = js ''/login'', requiresAuth = Some False\<rparr>"
                         "\<lparr>token = Some (js ''t0k'')\<rparr>"]
        router_guard [of "\<lparr>path = js ''/login'', requiresAuth = Some False\<rparr>" "\<lparr>token = None\<rparr>"]
        router_guard [of "\<lparr>path = js ''/providers'', requiresAuth = Some True\<rparr>"
                         "\<lparr>token = Some (js ''t0k'')\<rparr>"]
  by (simp add: isAuthenticated_def js_def)

section \<open>The API helper\<close>

text \<open>
  Claim C9, as stated, fails where the body has a \<open>data\<close> member that is
  \<open>null\<close>: the status is ok, the body's status is not \<open>error\<close>, the
  \<open>data\<close> member is present, and \<open>api\<close> returns the whole body, not the
  member.
\<close>

theorem api_data_null_counterexample:
  "ok \<lparr>status = 200, body = Some (JObj [(js ''data'', JNull)])\<rparr> \<and>
   get_prop (parsed \<lparr>status = 200, body = Some (JObj [(js ''data'', JNull)])\<rparr>) (js ''status'')
     \<noteq> Some (JStr (js ''error'')) \<and>
   get_prop (parsed \<lparr>status = 200, body = Some (JObj [(js ''data'', JNull)])\<rparr>) (js ''data'')
     = Some JNull \<and>
   api (Resolved \<lparr>status = 200, body = Some (JObj [(js ''data'', JNull)])\<rparr>) \<noteq> Inr JNull \<and>
   api (Resolved \<lparr>status = 200, body = Some (JObj [(js ''data'', JNull)])\<rparr>)
     = Inr (JObj [(js ''data'', JNull)])"
  by (simp add: api_def ok_def parsed_def js_def)

text \<open>
  Claim C9, amended. For every response, \<open>api\<close> throws exactly when the status
  is not ok or the parsed body has status \<open>error\<close>, and what it throws is an
  Error; otherwise it returns the body's \<open>data\<close> member when that is present
  and not \<open>null\<close>, and the whole body otherwise; a body that is not JSON, on an
  ok status, yields \<open>null\<close>.
\<close>

theorem api_outcome:
  "((\<exists>e. api (Resolved res) = Inl e) \<longleftrightarrow>
      \<not> ok res \<or> get_prop (parsed res) (js ''status'') = Some (JStr (js ''error''))) \<and>
   (\<forall>e. api (Resolved res) = Inl e \<longrightarrow> (\<exists>m. e = Error m)) \<and>
   (ok res \<and> get_prop (parsed res) (js ''status'') \<noteq> Some (JStr (js ''error'')) \<longrightarrow>
      api (Resolved res) =
        Inr (case get_prop (parsed res) (js ''data'') of
               None \<Rightarrow> parsed res
             | Some JNull \<Rightarrow> parsed res
             | Some d \<Rightarrow> d)) \<and>
   (ok res \<and> body res = None \<longrightarrow> api (Resolved res) = Inr JNull)"
  by (auto simp add: api_def Let_def parsed_def split: option.splits json.splits)

text \<open>
  \<open>api\<close> on four responses: a status 500 without JSON body, an error reported in
  the body, a body with a \<open>data\<close> member, and an ok status without JSON body.
\<close>

theorem api_outcome_witness:
  "api (Resolved \<lparr>status = 500, body = None\<rparr>) = Inl (Error (HttpStatus 500)) \<and>
   api (Resolved \<lparr>status = 200, body = Some (JObj [(js ''status'', JStr (js ''error'')),
                                                   (js ''message'', JStr (js ''bad''))])\<rparr>) =
     Inl (Error (FromBody (JStr (js ''bad'')))) \<and>
   api (Resolved \<lparr>status = 200, body = Some (JObj [(js ''status'', JStr (js ''ok'')),
                                                   (js ''data'', JNum 7)])\<rparr>) = Inr (JNum 7) \<and>
   api (Resolved \<lparr>status = 200, body = None\<rparr>) = Inr JNull"
  using api_outcome [of "\<lparr>status = 500, body = None\<rparr>"]
        api_outcome [of "\<lparr>status = 200, body = Some (JObj [(js ''status'', JStr (js ''error'')),
                                                   (js ''message'', JStr (js ''bad''))])\<rparr>"]
        api_outcome [of "\<lparr>status = 200, body = Some (JObj [(js ''status'', JStr (js ''ok'')),
                                                   (js ''data'', JNum 7)])\<rparr>"]
        api_outcome [of "\<lparr>status = 200, body = None\<rparr>"]
  by (simp add: api_def ok_def parsed_def js_def)

section \<open>Wake prefixes through the settings view\<close>

lemma split_acc_no_sep: "c \<notin> set a \<Longrightarrow> split_acc c cur a = [rev cur @ a]"
  by (induction a arbitrary: cur) auto

lemma split_acc_sep:
  "c \<notin> set a \<Longrightarrow> split_acc c cur (a @ c # rest) = (rev cur @ a) # split_acc c [] rest"
  by (induction a arbitrary: cur) auto

lemma js_comma_space: "js '', '' = [0x2C, 0x20]"
  by (simp add: js_def)

lemma split_join:
  "\<forall>y \<in> set (x # xs). 0x2C \<notin> set y \<Longrightarrow>
   split_acc 0x2C cur (join (js '', '') (x # xs)) = (rev cur @ x) # map ((#) 0x20) xs"
proof (induction xs arbitrary: x cur)
  case Nil
  then show ?case by (simp add: split_acc_no_sep)
next
  case (Cons y ys)
  have x: "0x2C \<notin> set x" using Cons.prems by simp
  have rest: "\<forall>z \<in> set (y # ys). 0x2C \<notin> set z" using Cons.prems by simp
  have "split_acc 0x2C cur (x @ 0x2C # 0x20 # join (js '', '') (y # ys)) =
        (rev cur @ x) # split_acc 0x2C [] (0x20 # join (js '', '') (y # ys))"
    using x by (rule split_acc_sep)
  also have "split_acc 0x2C [] (0x20 # join (js '', '') (y # ys)) =
             split_acc 0x2C [0x20] (join (js '', '') (y # ys))"
    by simp
  also have "\<dots> = (rev [0x20] @ y) # map ((#) 0x20) ys"
    using rest by (rule Cons.IH)
  finally show ?case by (simp add: js_comma_space)
qed

lemma trim_id:
  assumes "x \<noteq> []" "\<not> is_ws (hd x)" "\<not> is_ws (last x)"
  shows "trim x = x"
proof -
  have front: "dropWhile is_ws x = x"
    using assms(1,2) by (cases x) simp_all
  have "rev x \<noteq> []" "\<not> is_ws (hd (rev x))"
    using assms(1,3) by (simp_all add: hd_rev)
  then have rear: "dropWhile is_ws (rev x) = rev x"
    by (cases "rev x") simp_all
  show ?thesis by (simp add: trim_def strip_def front rear)
qed

lemma is_ws_space: "is_ws 0x20"
  by (simp add: is_ws_def)

lemma trim_space:
  "x \<noteq> [] \<Longrightarrow> \<not> is_ws (hd x) \<Longrightarrow> \<not> is_ws (last x) \<Longrightarrow> trim (0x20 # x) = x"
  using trim_id [of x] by (simp add: trim_def strip_def is_ws_space)

lemma strip_newlines_id: "0xA \<notin> set s \<Longrightarrow> 0xD \<notin> set s \<Longrightarrow> strip_newlines s = s"
  by (auto simp add: strip_newlines_def filter_id_conv)

lemma normalize_newlines_id: "0xD \<notin> set s \<Longrightarrow> normalize_newlines s = s"
  by (induction s rule: normalize_newlines.induct) auto

lemma field_value_id: "0xA \<notin> set s \<Longrightarrow> 0xD \<notin> set s \<Longrightarrow> field_value kind s = s"
  by (cases kind) (simp_all add: field_value_def strip_newlines_id normalize_newlines_id)

lemma set_join: "set (join sep xs) \<subseteq> set sep \<union> (\<Union>x \<in> set xs. set x)"
  by (induction sep xs rule: join.induct) auto

lemma join_no_newline:
  assumes "\<forall>x \<in> set xs. 0xA \<notin> set x \<and> 0xD \<notin> set x"
  shows "0xA \<notin> set (join (js '', '') xs) \<and> 0xD \<notin> set (join (js '', '') xs)"
proof -
  have "0xA \<notin> set (js '', '') \<and> 0xD \<notin> set (js '', '')" by (simp add: js_comma_space)
  then show ?thesis using assms set_join [of "js '', ''" xs] by blast
qed

text \<open>
  Claim C8, as stated, fails on the single prefix \<open>a\<close>, CR, \<open>b\<close>: it is
  non-empty, has no comma and no whitespace at either end, and through a text input
  it comes back as \<open>ab\<close>, through a textarea as \<open>a\<close>, LF, \<open>b\<close>.
\<close>

theorem wake_prefixes_linebreak_counterexample:
  "[0x61, 0xD, 0x62] \<noteq> ([] :: jsstring) \<and>
   0x2C \<notin> set ([0x61, 0xD, 0x62] :: jsstring) \<and>
   \<not> is_ws (hd ([0x61, 0xD, 0x62] :: jsstring)) \<and>
   \<not> is_ws (last ([0x61, 0xD, 0x62] :: jsstring)) \<and>
   saveSettings_wake_prefixes (loadSettings_wake_prefixes TextInput [[0x61, 0xD, 0x62]]) =
     [[0x61, 0x62]] \<and>
   saveSettings_wake_prefixes (loadSettings_wake_prefixes TextArea [[0x61, 0xD, 0x62]]) =
     [[0x61, 0xA, 0x62]] \<and>
   saveSettings_wake_prefixes (loadSettings_wake_prefixes TextInput [[0x61, 0xD, 0x62]]) \<noteq>
     [[0x61, 0xD, 0x62]] \<and>
   saveSettings_wake_prefixes (loadSettings_wake_prefixes TextArea [[0x61, 0xD, 0x62]]) \<noteq>
     [[0x61, 0xD, 0x62]]"
  by (simp add: saveSettings_wake_prefixes_def loadSettings_wake_prefixes_def field_value_def
        strip_newlines_def split_def trim_def strip_def is_ws_def)

text \<open>
  Claim C8, amended. For every ordered list of wake prefixes whose items are
  non-empty, contain no comma and no line break (CR or LF) and have no leading or
  trailing whitespace, writing the list into the settings field (joined with comma
  and space), whether that is a text input or a textarea, and saving the field (split
  at the commas, each item trimmed, empty items dropped) yields the list itself, in
  its order.
\<close>

theorem wake_prefixes_roundtrip:
  assumes "\<forall>x \<in> set xs. x \<noteq> [] \<and> 0x2C \<notin> set x \<and> 0xA \<notin> set x \<and> 0xD \<notin> set x \<and>
             \<not> is_ws (hd x) \<and> \<not> is_ws (last x)"
  shows "saveSettings_wake_prefixes (loadSettings_wake_prefixes kind xs) = xs"
proof -
  have nl: "\<forall>x \<in> set xs. 0xA \<notin> set x \<and> 0xD \<notin> set x" using assms by simp
  have field: "loadSettings_wake_prefixes kind xs = join (js '', '') xs"
    unfolding loadSettings_wake_prefixes_def
    using join_no_newline [OF nl] by (simp add: field_value_id)
  show ?thesis
  proof (cases xs)
    case Nil
    then show ?thesis
      unfolding field
      by (simp add: saveSettings_wake_prefixes_def split_def trim_def strip_def)
  next
    case (Cons x ys)
    have nocomma: "\<forall>y \<in> set (x # ys). 0x2C \<notin> set y" using assms Cons by simp
    have pieces: "split 0x2C (join (js '', '') (x # ys)) = x # map ((#) 0x20) ys"
      unfolding split_def using split_join [OF nocomma, of "[]"] by simp
    have tx: "trim x = x" using assms Cons by (simp add: trim_id)
    have tys: "map trim (map ((#) 0x20) ys) = ys"
      using assms Cons by (simp add: map_idI trim_space)
    have ne: "filter (\<lambda>s. s \<noteq> []) (x # ys) = x # ys"
      using assms Cons by (auto simp add: filter_id_conv)
    have "saveSettings_wake_prefixes (join (js '', '') (x # ys)) = x # ys"
      unfolding saveSettings_wake_prefixes_def pieces
      using tx tys ne by simp
    then show ?thesis
      using field Cons by simp
  qed
qed

text \<open>The three prefixes \<open>/\<close>, \<open>bot x\<close> and \<open>!\<close> through the field and back.\<close>

theorem wake_prefixes_roundtrip_witness:
  "loadSettings_wake_prefixes TextInput [js ''/'', js ''bot x'', js ''!''] = js ''/, bot x, !'' \<and>
   loadSettings_wake_prefixes TextArea [js ''/'', js ''bot x'', js ''!''] = js ''/, bot x, !'' \<and>
   saveSettings_wake_prefixes (js ''/, bot x, !'') = [js ''/'', js ''bot x'', js ''!'']"
proof -
  have h: "\<forall>x \<in> set [js ''/'', js ''bot x'', js ''!''].
       x \<noteq> [] \<and> 0x2C \<notin> set x \<and> 0xA \<notin> set x \<and> 0xD \<notin> set x \<and>
       \<not> is_ws (hd x) \<and> \<not> is_ws (last x)"
    by (simp add: js_def is_ws_def)
  have r: "loadSettings_wake_prefixes TextInput [js ''/'', js ''bot x'', js ''!''] = js ''/, bot x, !''"
      "loadSettings_wake_prefixes TextArea [js ''/'', js ''bot x'', js ''!''] = js ''/, bot x, !''"
    by (simp_all add: loadSettings_wake_prefixes_def field_value_def strip_newlines_def js_def)
  show ?thesis using r wake_prefixes_roundtrip [OF h, of TextInput] by simp
qed

section \<open>The chat view\<close>

lemma js_user_ne_system: "js ''user'' \<noteq> js ''system''"
  by (simp add: js_def)

lemma slice_last_snoc: "slice_last (Suc n) (xs @ [x]) = slice_last n xs @ [x]"
  by (simp add: slice_last_def)

lemma slice_last_length: "length (slice_last n xs) = min n (length xs)"
  by (simp add: slice_last_def)

lemma slice_last_subset: "set (slice_last n xs) \<subseteq> set xs"
  by (simp add: slice_last_def set_drop_subset)

lemma chat_request_history:
  "history (chat_request (h @ [\<lparr>role = js ''user'', content = c\<rparr>]) msg pid) =
     slice_last 19 (filter non_system h) @ [\<lparr>role = js ''user'', content = c\<rparr>]"
proof -
  have u: "non_system \<lparr>role = js ''user'', content = c\<rparr>"
    by (simp add: non_system_def js_user_ne_system)
  have "(20::nat) = Suc 19" by simp
  then show ?thesis
    by (simp only: chat_request_def chat_body.simps filter_append filter.simps u if_True
          slice_last_snoc)
qed

lemma sendChat_requests:
  "trim input \<noteq> [] \<Longrightarrow>
   requests (sendChat server input pid a) =
     requests a @
     [chat_request
        (chatHistory a @ [\<lparr>role = js ''user'', content = Value (Some (JStr (trim input)))\<rparr>])
        (trim input) pid]"
  by (simp add: sendChat_def Let_def split: sum.splits json.splits)

lemma trim_hi: "trim (js ''hi'') = js ''hi''"
  by (simp add: trim_def strip_def js_def is_ws_def)

text \<open>
  Claim C4, as stated, fails on a chat with 20 earlier turns, none of them a system
  turn: the history sent holds the 19 most recent of them and the current user turn,
  not the 20 earlier turns followed by the current user turn.
\<close>

theorem sendChat_window_counterexample:
  "length (filter non_system
      (\<lparr>role = js ''user'', content = Value (Some (JStr (js ''first'')))\<rparr> #
       replicate 19 \<lparr>role = js ''assistant'', content = Value (Some (JStr (js ''x'')))\<rparr>)) = 20 \<and>
   map history (requests (sendChat unreachable (js ''hi'') []
      \<lparr>chatHistory = \<lparr>role = js ''user'', content = Value (Some (JStr (js ''first'')))\<rparr> #
         replicate 19 \<lparr>role = js ''assistant'', content = Value (Some (JStr (js ''x'')))\<rparr>,
       notifications = [], requests = []\<rparr>)) =
     [replicate 19 \<lparr>role = js ''assistant'', content = Value (Some (JStr (js ''x'')))\<rparr> @
      [\<lparr>role = js ''user'', content = Value (Some (JStr (js ''hi'')))\<rparr>]] \<and>
   map history (requests (sendChat unreachable (js ''hi'') []
      \<lparr>chatHistory = \<lparr>role = js ''user'', content = Value (Some (JStr (js ''first'')))\<rparr> #
         replicate 19 \<lparr>role = js ''assistant'', content = Value (Some (JStr (js ''x'')))\<rparr>,
       notifications = [], requests = []\<rparr>)) \<noteq>
     [slice_last 20 (filter non_system
        (\<lparr>role = js ''user'', content = Value (Some (JStr (js ''first'')))\<rparr> #
         replicate 19 \<lparr>role = js ''assistant'', content = Value (Some (JStr (js ''x'')))\<rparr>)) @
      [\<lparr>role = js ''user'', content = Value (Some (JStr (js ''hi'')))\<rparr>]]"
proof -
  let ?first = "\<lparr>role = js ''user'', content = Value (Some (JStr (js ''first'')))\<rparr>"
  let ?x = "\<lparr>role = js ''assistant'', content = Value (Some (JStr (js ''x'')))\<rparr>"
  let ?hi = "\<lparr>role = js ''user'', content = Value (Some (JStr (js ''hi'')))\<rparr>"
  let ?h = "?first # replicate 19 ?x"
  let ?a = "\<lparr>chatHistory = ?h, notifications = [], requests = []\<rparr>"
  have ne: "js ''user'' \<noteq> js ''system''" "js ''assistant'' \<noteq> js ''system''"
    by (simp_all add: js_def)
  have t: "trim (js ''hi'') \<noteq> []" unfolding trim_hi by (simp add: js_def)
  have req: "requests (sendChat unreachable (js ''hi'') [] ?a) =
             [chat_request (?h @ [?hi]) (js ''hi'') []]"
    using sendChat_requests [OF t, of unreachable "[]" ?a] by (simp add: trim_hi)
  have flt: "filter non_system ?h = ?h"
    by (simp add: non_system_def ne)
  have hist: "history (chat_request (?h @ [?hi]) (js ''hi'') []) = slice_last 19 ?h @ [?hi]"
    by (simp only: chat_request_history flt)
  have s19: "slice_last 19 ?h = replicate 19 ?x" by (simp add: slice_last_def)
  have s20: "slice_last 20 ?h = ?h" by (simp add: slice_last_def)
  have len: "length ?h = 20" by simp
  have neq: "replicate 19 ?x @ [?hi] \<noteq> ?h @ [?hi]"
  proof
    assume "replicate 19 ?x @ [?hi] = ?h @ [?hi]"
    then have "length (replicate 19 ?x @ [?hi]) = length (?h @ [?hi])" by (rule arg_cong)
    then show False by simp
  qed
  show ?thesis
    unfolding req flt s20 len list.map hist s19 using neq by simp
qed

text \<open>
  Claim C4, amended. For every non-empty message sent from the chat view, the history
  in the request is the 20 most recent turns of the chat that are not system turns,
  the current user turn counted among them: at most 19 earlier turns, oldest first,
  followed by a final user turn with the current message text, which is also the
  \<open>message\<close> of the request.
\<close>

theorem sendChat_history_window:
  assumes "trim input \<noteq> []"
  shows "\<exists>b earlier.
           requests (sendChat server input pid a) = requests a @ [b] \<and>
           message b = trim input \<and>
           earlier = slice_last 19 (filter non_system (chatHistory a)) \<and>
           history b =
             earlier @ [\<lparr>role = js ''user'', content = Value (Some (JStr (trim input)))\<rparr>] \<and>
           length earlier \<le> 19 \<and>
           (\<forall>m \<in> set earlier. role m \<noteq> js ''system'')"
proof -
  let ?earlier = "slice_last 19 (filter non_system (chatHistory a))"
  let ?b = "chat_request
      (chatHistory a @ [\<lparr>role = js ''user'', content = Value (Some (JStr (trim input)))\<rparr>])
      (trim input) pid"
  have "requests (sendChat server input pid a) = requests a @ [?b]"
    using assms by (rule sendChat_requests)
  moreover have "message ?b = trim input" by (simp add: chat_request_def)
  moreover have "history ?b =
      ?earlier @ [\<lparr>role = js ''user'', content = Value (Some (JStr (trim input)))\<rparr>]"
    by (rule chat_request_history)
  moreover have "length ?earlier \<le> 19" by (simp add: slice_last_length)
  moreover have "\<forall>m \<in> set ?earlier. role m \<noteq> js ''system''"
    using slice_last_subset [of 19 "filter non_system (chatHistory a)"]
    by (auto simp add: non_system_def)
  ultimately show ?thesis by blast
qed

text \<open>
  A chat that holds a system turn and one user turn, with the input \<open> hi \<close>: the
  request carries the earlier user turn and the current one.
\<close>

theorem sendChat_history_window_witness:
  "trim (js '' hi '') \<noteq> [] \<and>
   (\<exists>b earlier.
      requests (sendChat unreachable (js '' hi '') []
         \<lparr>chatHistory = [\<lparr>role = js ''system'', content = Value (Some (JStr (js ''s'')))\<rparr>,
                          \<lparr>role = js ''user'', content = Value (Some (JStr (js ''a'')))\<rparr>],
          notifications = [], requests = []\<rparr>) = [] @ [b] \<and>
      message b = js ''hi'' \<and>
      earlier = [\<lparr>role = js ''user'', content = Value (Some (JStr (js ''a'')))\<rparr>] \<and>
      history b = earlier @ [\<lparr>role = js ''user'', content = Value (Some (JStr (js ''hi'')))\<rparr>] \<and>
      length earlier \<le> 19 \<and>
      (\<forall>m \<in> set earlier. role m \<noteq> js ''system''))"
proof -
  have t: "trim (js '' hi '') = js ''hi''"
    by (simp add: trim_def strip_def js_def is_ws_def)
  have h: "trim (js '' hi '') \<noteq> []" unfolding t by (simp add: js_def)
  have e: "slice_last 19 (filter non_system
             [\<lparr>role = js ''system'', content = Value (Some (JStr (js ''s'')))\<rparr>,
              \<lparr>role = js ''user'', content = Value (Some (JStr (js ''a'')))\<rparr>]) =
           [\<lparr>role = js ''user'', content = Value (Some (JStr (js ''a'')))\<rparr>]"
    by (simp add: slice_last_def non_system_def js_def)
  let ?a = "\<lparr>chatHistory = [\<lparr>role = js ''system'', content = Value (Some (JStr (js ''s'')))\<rparr>,
                          \<lparr>role = js ''user'', content = Value (Some (JStr (js ''a'')))\<rparr>],
          notifications = [], requests = []\<rparr>"
  have c: "chatHistory ?a =
             [\<lparr>role = js ''system'', content = Value (Some (JStr (js ''s'')))\<rparr>,
              \<lparr>role = js ''user'', content = Value (Some (JStr (js ''a'')))\<rparr>]"
          "requests ?a = []"
    by simp_all
  show ?thesis
    using h sendChat_history_window [OF h, of unreachable "[]" ?a]
    unfolding c e t by blast
qed

section \<open>Personas\<close>

lemma active_le_one:
  "distinct (map name ps) \<Longrightarrow> length (filter (\<lambda>p. name p = n) ps) \<le> 1"
proof (induction ps)
  case Nil
  then show ?case by simp
next
  case (Cons p ps)
  show ?case
  proof (cases "name p = n")
    case True
    then have "n \<notin> name ` set ps" using Cons.prems by auto
    then have "filter (\<lambda>q. name q = n) ps = []"
      by (auto simp add: filter_empty_conv)
    then show ?thesis using True by simp
  next
    case False
    then show ?thesis using Cons by simp
  qed
qed

lemma distinct_remove_nth:
  assumes "distinct (map f xs)"
  shows "distinct (map f (take i xs @ drop (Suc i) xs))"
proof -
  have "map f xs = map f (take i xs) @ map f (drop i xs)"
    by (metis append_take_drop_id map_append)
  then have "distinct (map f (take i xs) @ map f (drop i xs))" using assms by simp
  moreover have "set (map f (drop (Suc i) xs)) \<subseteq> set (map f (drop i xs))"
    by (metis Suc_n_not_le_n nat_le_linear set_drop_subset_set_drop set_map image_mono)
  moreover have "distinct (map f (drop (Suc i) xs))"
    using assms by (simp add: drop_map [symmetric])
  ultimately show ?thesis by auto
qed

lemma distinct_replace_nth:
  assumes "distinct (map f xs)" "i < length xs"
    "f e \<notin> set (map f (take i xs @ drop (Suc i) xs))"
  shows "distinct (map f (xs[i := e]))"
proof -
  have "xs[i := e] = take i xs @ e # drop (Suc i) xs"
    using assms(2) by (rule upd_conv_take_nth_drop)
  moreover have "distinct (map f (take i xs @ drop (Suc i) xs))"
    using assms(1) by (rule distinct_remove_nth)
  ultimately show ?thesis using assms(3) by auto
qed

lemma savePersona_distinct:
  assumes "distinct (map name (personas cfg))" "fresh_save idx n cfg"
  shows "distinct (map name (personas (savePersona idx n d p cfg)))"
proof (cases "trim n = [] \<or> trim p = []")
  case True
  then show ?thesis using assms(1) by (auto simp add: savePersona_def Let_def)
next
  case False
  show ?thesis
  proof (cases idx)
    case None
    then show ?thesis using assms False
      by (simp add: savePersona_def Let_def fresh_save_def)
  next
    case (Some i)
    show ?thesis
    proof (cases "0 \<le> i \<and> i < int (length (personas cfg))")
      case True
      then have lt: "nat i < length (personas cfg)" by linarith
      have fr: "name \<lparr>name = trim n, description = trim d, prompt = trim p\<rparr> \<notin>
              set (map name (take (nat i) (personas cfg) @ drop (Suc (nat i)) (personas cfg)))"
        using assms(2) Some True by (simp add: fresh_save_def)
      have "distinct (map name
              ((personas cfg)[nat i := \<lparr>name = trim n, description = trim d, prompt = trim p\<rparr>]))"
        using assms(1) lt fr by (rule distinct_replace_nth)
      then show ?thesis using Some True False
        by (simp add: savePersona_def Let_def)
    next
      case out: False
      then have "trim n \<notin> set (map name (personas cfg))"
        using assms(2) Some by (auto simp add: fresh_save_def split: if_splits)
      then show ?thesis using assms(1) Some False out
        by (auto simp add: savePersona_def Let_def)
    qed
  qed
qed

lemma deletePersona_distinct:
  "distinct (map name (personas cfg)) \<Longrightarrow> distinct (map name (personas (deletePersona idx cfg)))"
  by (simp add: deletePersona_def distinct_remove_nth del: map_append)

lemma setDefaultPersona_personas: "personas (setDefaultPersona n cfg) = personas cfg"
  by (simp add: setDefaultPersona_def)

lemma run_ops_distinct:
  "distinct (map name (personas cfg)) \<Longrightarrow> fresh_ops ops cfg \<Longrightarrow>
   distinct (map name (personas (run_ops ops cfg)))"
proof (induction ops arbitrary: cfg)
  case Nil
  then show ?case by simp
next
  case (Cons op ops)
  show ?case
  proof (cases op)
    case (Save idx n d p)
    then show ?thesis using Cons by (simp add: savePersona_distinct)
  next
    case (Delete idx)
    then show ?thesis using Cons by (simp add: deletePersona_distinct)
  next
    case (SetDefault n)
    then show ?thesis using Cons by (simp add: setDefaultPersona_personas)
  qed
qed

lemma trim_letters:
  "trim (js ''A'') = js ''A''" "trim (js ''B'') = js ''B''" "trim (js ''C'') = js ''C''"
  "trim (js ''p'') = js ''p''" "trim (js ''q'') = js ''q''" "trim [] = []"
  by (simp_all add: trim_def strip_def js_def is_ws_def)

text \<open>
  Claim C7, as stated, fails: creating two personas under the name \<open>A\<close> and making
  \<open>A\<close> the default leaves two personas of one name, both marked as the default.
\<close>

theorem personas_duplicate_counterexample:
  "\<not> distinct (map name (personas (run_ops
       [Save None (js ''A'') [] (js ''p''), Save None (js ''A'') [] (js ''q''), SetDefault (js ''A'')]
       \<lparr>personas = [], default_persona = []\<rparr>))) \<and>
   length (filter (isActive (run_ops
       [Save None (js ''A'') [] (js ''p''), Save None (js ''A'') [] (js ''q''), SetDefault (js ''A'')]
       \<lparr>personas = [], default_persona = []\<rparr>))
     (personas (run_ops
       [Save None (js ''A'') [] (js ''p''), Save None (js ''A'') [] (js ''q''), SetDefault (js ''A'')]
       \<lparr>personas = [], default_persona = []\<rparr>))) = 2"
proof -
  have r: "run_ops
       [Save None (js ''A'') [] (js ''p''), Save None (js ''A'') [] (js ''q''), SetDefault (js ''A'')]
       \<lparr>personas = [], default_persona = []\<rparr> =
     \<lparr>personas = [\<lparr>name = js ''A'', description = [], prompt = js ''p''\<rparr>,
                   \<lparr>name = js ''A'', description = [], prompt = js ''q''\<rparr>],
      default_persona = js ''A''\<rparr>"
    by (simp add: savePersona_def setDefaultPersona_def trim_letters Let_def) (simp add: js_def)
  show ?thesis unfolding r by (simp add: isActive_def)
qed

text \<open>
  Claim C7, amended. The default is one name of the configuration, and a save does
  not look at the names in use. So after every sequence of persona create, edit,
  delete and set-default operations that starts with unique names and in which every
  save uses a name that no other persona has, the names are unique and at most one
  persona is the default.
\<close>

theorem personas_unique_when_fresh:
  assumes "distinct (map name (personas cfg))" "fresh_ops ops cfg"
  shows "distinct (map name (personas (run_ops ops cfg))) \<and>
         length (filter (isActive (run_ops ops cfg)) (personas (run_ops ops cfg))) \<le> 1"
proof -
  have d: "distinct (map name (personas (run_ops ops cfg)))"
    using assms by (rule run_ops_distinct)
  have "isActive (run_ops ops cfg) = (\<lambda>p. name p = default_persona (run_ops ops cfg))"
    by (simp add: isActive_def fun_eq_iff)
  then show ?thesis using d active_le_one [OF d] by simp
qed

text \<open>
  Two personas are created, the first is made the default and then renamed, the
  second is deleted: one persona is left, and it is no longer the default.
\<close>

theorem personas_unique_when_fresh_witness:
  "distinct (map name (personas \<lparr>personas = [], default_persona = []\<rparr>)) \<and>
   fresh_ops [Save None (js ''A'') [] (js ''p''), Save None (js ''B'') [] (js ''q''),
              SetDefault (js ''A''), Save (Some 0) (js ''C'') [] (js ''p''), Delete 1]
     \<lparr>personas = [], default_persona = []\<rparr> \<and>
   run_ops [Save None (js ''A'') [] (js ''p''), Save None (js ''B'') [] (js ''q''),
            SetDefault (js ''A''), Save (Some 0) (js ''C'') [] (js ''p''), Delete 1]
     \<lparr>personas = [], default_persona = []\<rparr> =
     \<lparr>personas = [\<lparr>name = js ''C'', description = [], prompt = js ''p''\<rparr>],
      default_persona = js ''A''\<rparr> \<and>
   distinct (map name (personas (run_ops
            [Save None (js ''A'') [] (js ''p''), Save None (js ''B'') [] (js ''q''),
             SetDefault (js ''A''), Save (Some 0) (js ''C'') [] (js ''p''), Delete 1]
     \<lparr>personas = [], default_persona = []\<rparr>))) \<and>
   length (filter (isActive (run_ops
            [Save None (js ''A'') [] (js ''p''), Save None (js ''B'') [] (js ''q''),
             SetDefault (js ''A''), Save (Some 0) (js ''C'') [] (js ''p''), Delete 1]
     \<lparr>personas = [], default_persona = []\<rparr>))
     (personas (run_ops
            [Save None (js ''A'') [] (js ''p''), Save None (js ''B'') [] (js ''q''),
             SetDefault (js ''A''), Save (Some 0) (js ''C'') [] (js ''p''), Delete 1]
     \<lparr>personas = [], default_persona = []\<rparr>))) \<le> 1"
proof -
  let ?ops = "[Save None (js ''A'') [] (js ''p''), Save None (js ''B'') [] (js ''q''),
               SetDefault (js ''A''), Save (Some 0) (js ''C'') [] (js ''p''), Delete 1]"
  let ?cfg = "\<lparr>personas = [], default_persona = []\<rparr>"
  have ne: "js ''A'' \<noteq> []" "js ''B'' \<noteq> []" "js ''C'' \<noteq> []" "js ''p'' \<noteq> []" "js ''q'' \<noteq> []"
    "js ''A'' \<noteq> js ''B''" "js ''B'' \<noteq> js ''A''" "js ''C'' \<noteq> js ''B''" "js ''B'' \<noteq> js ''C''"
    by (simp_all add: js_def)
  have d: "distinct (map name (personas ?cfg))" by simp
  have f: "fresh_ops ?ops ?cfg"
    by (simp add: fresh_save_def savePersona_def setDefaultPersona_def deletePersona_def
          trim_letters Let_def ne)
  have r: "run_ops ?ops ?cfg =
     \<lparr>personas = [\<lparr>name = js ''C'', description = [], prompt = js ''p''\<rparr>],
      default_persona = js ''A''\<rparr>"
    by (simp add: savePersona_def setDefaultPersona_def deletePersona_def trim_letters Let_def ne)
  show ?thesis
    using d f r personas_unique_when_fresh [OF d f] by simp
qed

section \<open>The dispatcher at startup\<close>

lemma fold_subscribe: "fold (\<lambda>s d. subscribe (fst s) (snd s) d) wiring d0 = d0 @ wiring"
  by (induction wiring arbitrary: d0) (simp_all add: subscribe_def)

lemma bootstrap_wiring: "bootstrap wiring = wiring"
  by (simp add: bootstrap_def fold_subscribe)

lemma handlers_empty_iff: "handlers d k = [] \<longleftrightarrow> k \<notin> fst ` set d"
  by (auto simp add: handlers_def filter_empty_conv)

text \<open>
  Claim C6. After the bootstrap wiring and before the steady state, in which adapters
  publish, the dispatcher's query gives exactly the required event kinds that have no
  subscriber; if there is such a kind, startup ends in the
  \<open>DispatcherWiringError\<close> that names these kinds, and the steady state is
  reached only when every required kind has a subscriber.
\<close>

theorem startup_fails_on_missing_subscriber:
  "set (unsubscribed required (bootstrap wiring)) =
     {k \<in> set required. \<not> (\<exists>h. (k, h) \<in> set wiring)} \<and>
   ((\<exists>k \<in> set required. \<not> (\<exists>h. (k, h) \<in> set wiring)) \<longrightarrow>
      startup required wiring =
        Inl (DispatcherWiringError (unsubscribed required (bootstrap wiring))) \<and>
      unsubscribed required (bootstrap wiring) \<noteq> []) \<and>
   ((\<forall>k \<in> set required. \<exists>h. (k, h) \<in> set wiring) \<longrightarrow>
      startup required wiring = Inr (Steady (bootstrap wiring))) \<and>
   (\<forall>d. startup required wiring = Inr (Steady d) \<longrightarrow>
      (\<forall>k \<in> set required. handlers d k \<noteq> []))"
proof -
  have q: "set (unsubscribed required (bootstrap wiring)) =
     {k \<in> set required. \<not> (\<exists>h. (k, h) \<in> set wiring)}"
    by (force simp add: unsubscribed_def handlers_empty_iff bootstrap_wiring)
  have e: "unsubscribed required (bootstrap wiring) = [] \<longleftrightarrow>
      (\<forall>k \<in> set required. \<exists>h. (k, h) \<in> set wiring)"
    unfolding set_empty [symmetric] q by blast
  have s: "\<forall>d. startup required wiring = Inr (Steady d) \<longrightarrow>
      (\<forall>k \<in> set required. handlers d k \<noteq> [])"
    by (auto simp add: startup_def Let_def unsubscribed_def filter_empty_conv split: if_splits)
  show ?thesis using q e s by (simp add: startup_def Let_def)
qed

text \<open>
  The wiring without a subscriber for received messages fails at startup and names
  the kind; with the message processor subscribed, startup reaches the steady state.
\<close>

theorem startup_fails_on_missing_subscriber_witness:
  "startup [MessageReceived, AdapterLifecycle] [(AdapterLifecycle, ''lifecycle_logger'')] =
     Inl (DispatcherWiringError [MessageReceived]) \<and>
   startup [MessageReceived, AdapterLifecycle]
     [(AdapterLifecycle, ''lifecycle_logger''), (MessageReceived, ''message_processor'')] =
     Inr (Steady [(AdapterLifecycle, ''lifecycle_logger''), (MessageReceived, ''message_processor'')])"
  using startup_fails_on_missing_subscriber
          [of "[MessageReceived, AdapterLifecycle]" "[(AdapterLifecycle, ''lifecycle_logger'')]"]
        startup_fails_on_missing_subscriber
          [of "[MessageReceived, AdapterLifecycle]"
              "[(AdapterLifecycle, ''lifecycle_logger''), (MessageReceived, ''message_processor'')]"]
  by (simp add: bootstrap_wiring unsubscribed_def handlers_def)

section \<open>The waking check\<close>

lemma starts_with_iff: "starts_with t p \<longleftrightarrow> (\<exists>rest. t = p @ rest)"
  unfolding starts_with_def
  by (metis append_eq_conv_conj append_take_drop_id)

lemma contains_iff: "contains t w \<longleftrightarrow> (\<exists>a b. t = a @ w @ b)"
proof (induction t)
  case Nil
  then show ?case by auto
next
  case (Cons x xs)
  show ?case
  proof
    assume "contains (x # xs) w"
    then consider "starts_with (x # xs) w" | "contains xs w" by auto
    then show "\<exists>a b. x # xs = a @ w @ b"
    proof cases
      case 1
      then obtain rest where "x # xs = w @ rest" by (auto simp add: starts_with_iff)
      then have "x # xs = [] @ w @ rest" by simp
      then show ?thesis by blast
    next
      case 2
      then obtain a b where "xs = a @ w @ b" using Cons.IH by auto
      then have "x # xs = (x # a) @ w @ b" by simp
      then show ?thesis by blast
    qed
  next
    assume "\<exists>a b. x # xs = a @ w @ b"
    then obtain a b where ab: "x # xs = a @ w @ b" by auto
    show "contains (x # xs) w"
    proof (cases a)
      case Nil
      then have "x # xs = w @ b" using ab by simp
      then have "starts_with (x # xs) w" unfolding starts_with_iff by blast
      then show ?thesis by simp
    next
      case (Cons y ys)
      then have "xs = ys @ w @ b" using ab by simp
      then show ?thesis using Cons.IH by auto
    qed
  qed
qed

lemma find_first_index:
  "i < length ps \<Longrightarrow> P (ps ! i) \<Longrightarrow> \<forall>j<i. \<not> P (ps ! j) \<Longrightarrow> find P ps = Some (ps ! i)"
  by (auto simp add: find_Some_iff)

text \<open>
  Claim C1. The waking decision goes by priority, the first match winning. A mention
  of \<open>self_id\<close> wakes with the raw text as clean text. Otherwise the first wake
  prefix, in list order, that the raw text starts with wakes, and the clean text is
  the raw text without this one prefix, trimmed. Otherwise a wake word that occurs in
  the raw text wakes with the raw text unchanged. Otherwise a private chat wakes with
  the raw text trimmed. Otherwise the message does not wake.
\<close>

theorem waking_priority:
  "(Mention self_id \<in> set (message_chain m) \<longrightarrow>
      waking_check ws self_id cfg m = Some (raw_text m)) \<and>
   (Mention self_id \<notin> set (message_chain m) \<longrightarrow>
      (\<forall>i rest. i < length (wake_prefixes cfg) \<and> raw_text m = wake_prefixes cfg ! i @ rest \<and>
           (\<forall>j<i. \<not> starts_with (raw_text m) (wake_prefixes cfg ! j)) \<longrightarrow>
         waking_check ws self_id cfg m = Some (strip ws rest)) \<and>
      ((\<forall>p \<in> set (wake_prefixes cfg). \<not> starts_with (raw_text m) p) \<longrightarrow>
         ((\<exists>w \<in> set (wake_words cfg). \<exists>a b. raw_text m = a @ w @ b) \<longrightarrow>
            waking_check ws self_id cfg m = Some (raw_text m)) \<and>
         (\<not> (\<exists>w \<in> set (wake_words cfg). \<exists>a b. raw_text m = a @ w @ b) \<longrightarrow>
            (is_private m \<longrightarrow> waking_check ws self_id cfg m = Some (strip ws (raw_text m))) \<and>
            (\<not> is_private m \<longrightarrow> waking_check ws self_id cfg m = None))))"
proof -
  have pre: "waking_check ws self_id cfg m = Some (strip ws rest)"
    if "Mention self_id \<notin> set (message_chain m)" "i < length (wake_prefixes cfg)"
       "raw_text m = wake_prefixes cfg ! i @ rest"
       "\<forall>j<i. \<not> starts_with (raw_text m) (wake_prefixes cfg ! j)" for i rest
  proof -
    have "starts_with (raw_text m) (wake_prefixes cfg ! i)"
      using that(3) by (auto simp add: starts_with_iff)
    then have "find (starts_with (raw_text m)) (wake_prefixes cfg) = Some (wake_prefixes cfg ! i)"
      using that(2,4) by (simp add: find_first_index)
    then show ?thesis using that(1,3) by (simp add: waking_check_def)
  qed
  have nopre: "find (starts_with (raw_text m)) (wake_prefixes cfg) = None"
    if "\<forall>p \<in> set (wake_prefixes cfg). \<not> starts_with (raw_text m) p"
    using that by (simp add: find_None_iff)
  have c1: "Mention self_id \<in> set (message_chain m) \<longrightarrow>
      waking_check ws self_id cfg m = Some (raw_text m)"
    by (simp add: waking_check_def)
  have c3: "waking_check ws self_id cfg m =
      (if \<exists>w \<in> set (wake_words cfg). \<exists>a b. raw_text m = a @ w @ b then Some (raw_text m)
       else if is_private m then Some (strip ws (raw_text m)) else None)"
    if "Mention self_id \<notin> set (message_chain m)"
       "\<forall>p \<in> set (wake_prefixes cfg). \<not> starts_with (raw_text m) p"
    using that(1) nopre [OF that(2)] by (simp add: waking_check_def contains_iff)
  show ?thesis
    using c1 pre c3 by (intro conjI impI allI) (blast, blast, simp_all)
qed

text \<open>
  The examples of section 8: a mention beats the prefix and keeps the text; of two
  matching prefixes the first listed is removed; a wake word inside the text of a
  group chat wakes with the text unchanged; a group message without any signal does
  not wake; a private message wakes with its text trimmed.
\<close>

theorem waking_priority_witness:
  "waking_check space_only (ustr ''bot'') \<lparr>wake_prefixes = [ustr ''/''], wake_words = []\<rparr>
     (group_message (ustr ''/help'') [Mention (ustr ''bot''), Text (ustr ''/help'')]) =
     Some (ustr ''/help'') \<and>
   waking_check space_only (ustr ''bot'') \<lparr>wake_prefixes = [ustr ''/'', ustr ''/he''], wake_words = []\<rparr>
     (group_message (ustr ''/help world'') [Text (ustr ''/help world'')]) =
     Some (ustr ''help world'') \<and>
   waking_check space_only (ustr ''bot'')
     \<lparr>wake_prefixes = [ustr ''/''], wake_words = [[0x673A, 0x5668, 0x4EBA]]\<rparr>
     (group_message [0x4F60, 0x597D, 0x673A, 0x5668, 0x4EBA] [Text [0x4F60, 0x597D, 0x673A, 0x5668, 0x4EBA]]) =
     Some [0x4F60, 0x597D, 0x673A, 0x5668, 0x4EBA] \<and>
   waking_check space_only (ustr ''bot'') \<lparr>wake_prefixes = [ustr ''/''], wake_words = [ustr ''robot'']\<rparr>
     (group_message (ustr ''hello'') [Text (ustr ''hello'')]) = None \<and>
   waking_check space_only (ustr ''bot'') \<lparr>wake_prefixes = [ustr ''/''], wake_words = [ustr ''robot'']\<rparr>
     ((group_message (ustr '' hello '') [Text (ustr '' hello '')])\<lparr>is_private := True\<rparr>) =
     Some (ustr ''hello'')"
  using waking_priority [of "ustr ''bot''"
          "group_message (ustr ''/help'') [Mention (ustr ''bot''), Text (ustr ''/help'')]"
          space_only "\<lparr>wake_prefixes = [ustr ''/''], wake_words = []\<rparr>"]
        waking_priority [of "ustr ''bot''"
          "group_message (ustr ''/help world'') [Text (ustr ''/help world'')]"
          space_only "\<lparr>wake_prefixes = [ustr ''/'', ustr ''/he''], wake_words = []\<rparr>"]
        waking_priority [of "ustr ''bot''"
          "group_message [0x4F60, 0x597D, 0x673A, 0x5668, 0x4EBA] [Text [0x4F60, 0x597D, 0x673A, 0x5668, 0x4EBA]]"
          space_only "\<lparr>wake_prefixes = [ustr ''/''], wake_words = [[0x673A, 0x5668, 0x4EBA]]\<rparr>"]
        waking_priority [of "ustr ''bot''"
          "group_message (ustr ''hello'') [Text (ustr ''hello'')]"
          space_only "\<lparr>wake_prefixes = [ustr ''/''], wake_words = [ustr ''robot'']\<rparr>"]
        waking_priority [of "ustr ''bot''"
          "(group_message (ustr '' hello '') [Text (ustr '' hello '')])\<lparr>is_private := True\<rparr>"
          space_only "\<lparr>wake_prefixes = [ustr ''/''], wake_words = [ustr ''robot'']\<rparr>"]
  by (simp add: waking_check_def group_message_def ustr_def starts_with_def strip_def space_only_def)

section \<open>The orchestrator\<close>

lemma awaiting_tool_results_eq:
  "awaiting_tool_results tools tcs turns = turns @ map (tool_turn tools) tcs"
  by (induction tcs arbitrary: turns) simp_all

lemma expects_append:
  "expects ids xs \<Longrightarrow> expects ids (xs @ ys) = expects [] ys"
  by (induction ids xs rule: expects.induct) simp_all

lemma expects_tool_turns: "expects (map call_id tcs) (map (tool_turn tools) tcs)"
  by (induction tcs) (simp_all add: tool_turn_def)

lemma complete_log:
  "complete r p log turns = (log', res) \<Longrightarrow> set log' = insert turns (set log)"
proof (induction r arbitrary: log)
  case 0
  then show ?case
    by (auto split: completion.splits list.splits)
next
  case (Suc r)
  show ?case
  proof (cases "p (length log) turns")
    case (Content c)
    then show ?thesis using Suc.prems by auto
  next
    case (ToolCalls tcs)
    then show ?thesis using Suc.prems Suc.IH [of "log @ [turns]"]
      by (cases tcs) auto
  next
    case ProviderCallError
    then show ?thesis using Suc.prems Suc.IH [of "log @ [turns]"] by auto
  qed
qed

lemma expects_anchor:
  "expects ids ts \<Longrightarrow> ts = pre @ t # post \<Longrightarrow> turn_role t = Tool \<Longrightarrow>
   (length pre < length ids \<and> tool_call_id t = Some (ids ! length pre) \<and>
      (\<forall>r \<in> set pre. turn_role r = Tool)) \<or>
   (\<exists>before a results.
      pre = before @ a # results \<and> turn_role a = Assistant \<and>
      tool_call_id t \<in> set (map (\<lambda>c. Some (call_id c)) (tool_calls a)) \<and>
      (\<forall>r \<in> set results. turn_role r = Tool))"
proof (induction ids ts arbitrary: pre rule: expects.induct)
  case (1 ids)
  then show ?case by simp
next
  case (2 u us)
  let ?ids = "if turn_role u = Assistant then map call_id (tool_calls u) else []"
  have u: "turn_role u \<noteq> Tool" and rest: "expects ?ids us"
    using "2.prems"(1) by simp_all
  show ?case
  proof (cases pre)
    case Nil
    then have "t = u" using "2.prems"(2) by simp
    then show ?thesis using u "2.prems"(3) by simp
  next
    case (Cons v pre')
    then have v: "v = u" and us: "us = pre' @ t # post"
      using "2.prems"(2) by simp_all
    from "2.IH" [OF rest us "2.prems"(3)]
    consider
      (direct) "length pre' < length ?ids" "tool_call_id t = Some (?ids ! length pre')"
        "\<forall>r \<in> set pre'. turn_role r = Tool"
    | (inner) before a results where "pre' = before @ a # results" "turn_role a = Assistant"
        "tool_call_id t \<in> set (map (\<lambda>c. Some (call_id c)) (tool_calls a))"
        "\<forall>r \<in> set results. turn_role r = Tool"
      by blast
    then show ?thesis
    proof cases
      case direct
      have asst: "turn_role u = Assistant"
        using direct(1) by (cases "turn_role u = Assistant") simp_all
      then have lt: "length pre' < length (tool_calls u)" using direct(1) by simp
      have "tool_call_id t = Some (call_id (tool_calls u ! length pre'))"
        using direct(2) asst lt by simp
      then have "tool_call_id t \<in> set (map (\<lambda>c. Some (call_id c)) (tool_calls u))"
        using lt nth_mem [of "length pre'" "tool_calls u"] by simp
      moreover have "pre = [] @ u # pre'" using Cons v by simp
      ultimately show ?thesis using asst direct(3) by blast
    next
      case inner
      have "pre = (u # before) @ a # results" using Cons v inner(1) by simp
      then show ?thesis using inner(2,3,4) by blast
    qed
  qed
next
  case (3 i ids u us)
  have u: "turn_role u = Tool" "tool_call_id u = Some i" and rest: "expects ids us"
    using "3.prems"(1) by simp_all
  show ?case
  proof (cases pre)
    case Nil
    then have "t = u" using "3.prems"(2) by simp
    then show ?thesis using u Nil by simp
  next
    case (Cons v pre')
    then have v: "v = u" and us: "us = pre' @ t # post"
      using "3.prems"(2) by simp_all
    from "3.IH" [OF rest us "3.prems"(3)]
    consider
      (direct) "length pre' < length ids" "tool_call_id t = Some (ids ! length pre')"
        "\<forall>r \<in> set pre'. turn_role r = Tool"
    | (inner) before a results where "pre' = before @ a # results" "turn_role a = Assistant"
        "tool_call_id t \<in> set (map (\<lambda>c. Some (call_id c)) (tool_calls a))"
        "\<forall>r \<in> set results. turn_role r = Tool"
      by blast
    then show ?thesis
    proof cases
      case direct
      then show ?thesis using Cons v u by simp
    next
      case inner
      have "pre = (u # before) @ a # results" using Cons v inner(1) by simp
      then show ?thesis using inner(2,3,4) by blast
    qed
  qed
qed

lemma adjacent_anchored: "adjacent ts \<Longrightarrow> anchored ts"
  unfolding adjacent_def anchored_def
  using expects_anchor [of "[]" ts] by simp blast

lemma complete_tool_calls:
  "p (length log) turns = ToolCalls (tc # tcs) \<Longrightarrow>
   complete r p log turns = (log @ [turns], Some (Inr (tc # tcs)))"
  by simp

lemma capped_run:
  assumes always: "\<forall>n ts. \<exists>tc tcs. p n ts = ToolCalls (tc # tcs)"
  shows "k = Suc (max_tool_rounds cfg) - round \<Longrightarrow> round \<le> Suc (max_tool_rounds cfg) \<Longrightarrow>
    final_state (calling cfg p tools round log turns) = Capped \<and>
    length (provider_calls (calling cfg p tools round log turns)) = length log + k \<and>
    rounds (calling cfg p tools round log turns) = max_tool_rounds cfg"
proof (induction k arbitrary: round log turns)
  case 0
  then have "max_tool_rounds cfg < round" by simp
  then show ?case using 0 by (simp add: calling.simps)
next
  case (Suc k)
  then have le: "\<not> max_tool_rounds cfg < round" by simp
  obtain tc tcs where tcs: "p (length log) turns = ToolCalls (tc # tcs)"
    using always by blast
  have step: "calling cfg p tools round log turns =
      calling cfg p tools (Suc round) (log @ [turns])
        (awaiting_tool_results tools (tc # tcs) (turns @ [assistant_turn (tc # tcs)]))"
    using le tcs complete_tool_calls [of p log turns tc tcs "max_retries cfg"]
    by (simp add: calling.simps [of cfg p tools round log turns])
  have k: "k = Suc (max_tool_rounds cfg) - Suc round" using Suc.prems by simp
  have r: "Suc round \<le> Suc (max_tool_rounds cfg)" using le by simp
  show ?case
    unfolding step using Suc.IH [OF k r, of "log @ [turns]"] by simp
qed

lemma adjacent_append: "adjacent xs \<Longrightarrow> adjacent ys \<Longrightarrow> adjacent (xs @ ys)"
  by (simp add: adjacent_def expects_append)

lemma adjacent_block: "adjacent (assistant_turn tcs # map (tool_turn tools) tcs)"
  by (simp add: adjacent_def assistant_turn_def expects_tool_turns)

lemma calling_appended:
  "turns = base @ a0 \<Longrightarrow> adjacent a0 \<Longrightarrow>
   \<forall>ts \<in> set log. \<exists>a. ts = base @ a \<and> adjacent a \<Longrightarrow>
   (\<exists>a. final_turns (calling cfg p tools round log turns) = base @ a \<and> adjacent a) \<and>
   (\<forall>ts \<in> set (provider_calls (calling cfg p tools round log turns)).
       \<exists>a. ts = base @ a \<and> adjacent a)"
proof (induction cfg p tools round log turns arbitrary: a0 rule: calling.induct)
  case (1 cfg p tools round log turns)
  have here: "\<exists>a. turns = base @ a \<and> adjacent a"
    using "1.prems"(1,2) by blast
  show ?case
  proof (cases "max_tool_rounds cfg < round")
    case True
    then show ?thesis using "1.prems"(3) here by (simp add: calling.simps)
  next
    case False
    obtain log' res where c: "complete (max_retries cfg) p log turns = (log', res)"
      by (cases "complete (max_retries cfg) p log turns") auto
    have logs: "\<forall>ts \<in> set log'. \<exists>a. ts = base @ a \<and> adjacent a"
      using complete_log [OF c] "1.prems"(3) here by simp
    show ?thesis
    proof (cases res)
      case None
      then show ?thesis using False c logs here
        by (simp add: calling.simps [of cfg p tools round log turns])
    next
      case (Some r)
      show ?thesis
      proof (cases r)
        case (Inl content)
        then show ?thesis using False c logs Some here
          by (simp add: calling.simps [of cfg p tools round log turns])
      next
        case (Inr tcs)
        let ?a1 = "a0 @ assistant_turn tcs # map (tool_turn tools) tcs"
        have t: "awaiting_tool_results tools tcs (turns @ [assistant_turn tcs]) = base @ ?a1"
          using "1.prems"(1) by (simp add: awaiting_tool_results_eq)
        have a: "adjacent ?a1"
          using "1.prems"(2) adjacent_block by (rule adjacent_append)
        have "(\<exists>a. final_turns (calling cfg p tools (Suc round) log'
                 (awaiting_tool_results tools tcs (turns @ [assistant_turn tcs]))) = base @ a \<and>
                 adjacent a) \<and>
              (\<forall>ts \<in> set (provider_calls (calling cfg p tools (Suc round) log'
                 (awaiting_tool_results tools tcs (turns @ [assistant_turn tcs])))).
                 \<exists>a. ts = base @ a \<and> adjacent a)"
          using "1.IH" [OF False c [symmetric] Some Inr t a logs] .
        then show ?thesis using False c Some Inr
          by (simp add: calling.simps [of cfg p tools round log turns])
      qed
    qed
  qed
qed

text \<open>
  Claim C2. Every turn sequence the orchestrator builds, each one it sends to the
  provider and the one it ends with, is the conversation it was given followed by
  the turns it has appended, and among the appended turns every tool turn has before
  it an assistant turn whose tool calls contain its id, with nothing but tool turns
  between the two: the tool turns of one assistant turn follow it at once, one per
  call and in the order of the calls, before any later assistant turn.
\<close>

theorem orchestrator_turns_adjacent:
  "\<forall>ts \<in> set (final_turns (orchestrate cfg p tools conversation) #
                provider_calls (orchestrate cfg p tools conversation)).
      \<exists>added. ts = conversation @ added \<and> adjacent added \<and> anchored added"
proof -
  have e: "adjacent []" by (simp add: adjacent_def)
  have "(\<exists>a. final_turns (calling cfg p tools 1 [] conversation) = conversation @ a \<and> adjacent a) \<and>
        (\<forall>ts \<in> set (provider_calls (calling cfg p tools 1 [] conversation)).
            \<exists>a. ts = conversation @ a \<and> adjacent a)"
    using e by (intro calling_appended [where ?a0.0 = "[]"]) simp_all
  then show ?thesis
    unfolding orchestrate_def using adjacent_anchored by fastforce
qed

lemma clock_run:
  assumes "2 \<le> max_tool_rounds cfg"
  shows "orchestrate cfg clock_provider clock_tools conversation =
   \<lparr>final_state = Done (ustr ''It is 12:00''),
    final_turns =
      conversation @
      [\<lparr>turn_role = Assistant, turn_content = None, tool_calls = [get_time_call],
        tool_call_id = None\<rparr>,
       \<lparr>turn_role = Tool, turn_content = Some (ustr ''12:00''), tool_calls = [],
        tool_call_id = Some (ustr ''1'')\<rparr>],
    provider_calls =
      [conversation,
       conversation @
       [\<lparr>turn_role = Assistant, turn_content = None, tool_calls = [get_time_call],
         tool_call_id = None\<rparr>,
        \<lparr>turn_role = Tool, turn_content = Some (ustr ''12:00''), tool_calls = [],
         tool_call_id = Some (ustr ''1'')\<rparr>]],
    rounds = 2\<rparr>"
proof -
  let ?next = "conversation @
      [\<lparr>turn_role = Assistant, turn_content = None, tool_calls = [get_time_call],
        tool_call_id = None\<rparr>,
       \<lparr>turn_role = Tool, turn_content = Some (ustr ''12:00''), tool_calls = [],
        tool_call_id = Some (ustr ''1'')\<rparr>]"
  have r1: "\<not> max_tool_rounds cfg < 1" and r2: "\<not> max_tool_rounds cfg < Suc 1"
    using assms by simp_all
  have c1: "complete (max_retries cfg) clock_provider [] conversation =
              ([conversation], Some (Inr [get_time_call]))"
    by (simp add: clock_provider_def)
  have a: "awaiting_tool_results clock_tools [get_time_call]
             (conversation @ [assistant_turn [get_time_call]]) = ?next"
    by (simp add: assistant_turn_def tool_turn_def execute_def clock_tools_def get_time_call_def)
  have c2: "complete (max_retries cfg) clock_provider [conversation] ?next =
              ([conversation, ?next], Some (Inl (ustr ''It is 12:00'')))"
    by (simp add: clock_provider_def)
  have s2: "calling cfg clock_provider clock_tools (Suc 1) [conversation] ?next =
      \<lparr>final_state = Done (ustr ''It is 12:00''), final_turns = ?next,
       provider_calls = [conversation, ?next], rounds = 2\<rparr>"
    using r2 by (subst calling.simps) (simp add: c2 del: complete.simps)
  have s1: "calling cfg clock_provider clock_tools 1 [] conversation =
      calling cfg clock_provider clock_tools (Suc 1) [conversation]
        (awaiting_tool_results clock_tools [get_time_call]
           (conversation @ [assistant_turn [get_time_call]]))"
    using r1
    by (subst calling.simps) (simp add: c1 del: complete.simps awaiting_tool_results.simps)
  show ?thesis
    by (simp only: orchestrate_def s1 a s2)
qed

text \<open>
  The tool-call round trip of section 8: the provider asks for \<open>get_time\<close>, the
  tool answers \<open>12:00\<close>, the provider then answers with content.
\<close>

theorem orchestrator_turns_adjacent_witness:
  "final_state (orchestrate \<lparr>max_tool_rounds = 5, max_retries = 0\<rparr> clock_provider clock_tools
     [user_turn (ustr ''What time is it?'')]) = Done (ustr ''It is 12:00'') \<and>
   final_turns (orchestrate \<lparr>max_tool_rounds = 5, max_retries = 0\<rparr> clock_provider clock_tools
     [user_turn (ustr ''What time is it?'')]) =
     [user_turn (ustr ''What time is it?'')] @
     [\<lparr>turn_role = Assistant, turn_content = None, tool_calls = [get_time_call],
       tool_call_id = None\<rparr>,
      \<lparr>turn_role = Tool, turn_content = Some (ustr ''12:00''), tool_calls = [],
       tool_call_id = Some (ustr ''1'')\<rparr>] \<and>
   adjacent
     [\<lparr>turn_role = Assistant, turn_content = None, tool_calls = [get_time_call],
       tool_call_id = None\<rparr>,
      \<lparr>turn_role = Tool, turn_content = Some (ustr ''12:00''), tool_calls = [],
       tool_call_id = Some (ustr ''1'')\<rparr>] \<and>
   anchored
     [\<lparr>turn_role = Assistant, turn_content = None, tool_calls = [get_time_call],
       tool_call_id = None\<rparr>,
      \<lparr>turn_role = Tool, turn_content = Some (ustr ''12:00''), tool_calls = [],
       tool_call_id = Some (ustr ''1'')\<rparr>]"
proof -
  let ?r = "orchestrate \<lparr>max_tool_rounds = 5, max_retries = 0\<rparr> clock_provider clock_tools
     [user_turn (ustr ''What time is it?'')]"
  let ?block = "[\<lparr>turn_role = Assistant, turn_content = None, tool_calls = [get_time_call],
       tool_call_id = None\<rparr>,
      \<lparr>turn_role = Tool, turn_content = Some (ustr ''12:00''), tool_calls = [],
       tool_call_id = Some (ustr ''1'')\<rparr>]"
  have f: "final_turns ?r = [user_turn (ustr ''What time is it?'')] @ ?block"
    "final_state ?r = Done (ustr ''It is 12:00'')"
    by (simp_all add: clock_run)
  obtain added where a: "final_turns ?r = [user_turn (ustr ''What time is it?'')] @ added"
      "adjacent added" "anchored added"
    using orchestrator_turns_adjacent [of "\<lparr>max_tool_rounds = 5, max_retries = 0\<rparr>"
        clock_provider clock_tools "[user_turn (ustr ''What time is it?'')]"]
    by auto
  have "added = ?block" using a(1) f(1) by simp
  then show ?thesis using a(2,3) f by simp
qed

text \<open>
  Claim C3. With a provider that always returns tool calls and
  \<open>max_tool_rounds = 5\<close>, every run of the orchestrator ends in the state
  \<open>Capped\<close> after exactly 5 rounds, with exactly 5 calls of the provider, and
  its result is the tool-limit explanation.
\<close>

theorem capped_after_five_rounds:
  assumes "\<forall>n ts. \<exists>tc tcs. p n ts = ToolCalls (tc # tcs)" "max_tool_rounds cfg = 5"
  shows "final_state (orchestrate cfg p tools conversation) = Capped \<and>
         length (provider_calls (orchestrate cfg p tools conversation)) = 5 \<and>
         rounds (orchestrate cfg p tools conversation) = 5 \<and>
         result_text ex (orchestrate cfg p tools conversation) = tool_limit ex"
proof -
  have "final_state (calling cfg p tools 1 [] conversation) = Capped \<and>
        length (provider_calls (calling cfg p tools 1 [] conversation)) = length ([]::turn list list) + 5 \<and>
        rounds (calling cfg p tools 1 [] conversation) = max_tool_rounds cfg"
    using assms(2) by (intro capped_run [OF assms(1)]) simp_all
  then show ?thesis using assms(2) by (simp add: orchestrate_def result_text_def)
qed

text \<open>The provider that asks for \<open>get_time\<close> on every call, with a limit of 5.\<close>

theorem capped_after_five_rounds_witness:
  "(\<forall>n ts. \<exists>tc tcs. looping_provider n ts = ToolCalls (tc # tcs)) \<and>
   max_tool_rounds \<lparr>max_tool_rounds = 5, max_retries = 2\<rparr> = 5 \<and>
   final_state (orchestrate \<lparr>max_tool_rounds = 5, max_retries = 2\<rparr> looping_provider clock_tools
      [user_turn (ustr ''loop'')]) = Capped \<and>
   length (provider_calls (orchestrate \<lparr>max_tool_rounds = 5, max_retries = 2\<rparr> looping_provider
      clock_tools [user_turn (ustr ''loop'')])) = 5 \<and>
   rounds (orchestrate \<lparr>max_tool_rounds = 5, max_retries = 2\<rparr> looping_provider clock_tools
      [user_turn (ustr ''loop'')]) = 5"
proof -
  have a: "\<forall>n ts. \<exists>tc tcs. looping_provider n ts = ToolCalls (tc # tcs)"
    by (simp add: looping_provider_def)
  have m: "max_tool_rounds \<lparr>max_tool_rounds = 5, max_retries = 2\<rparr> = 5" by simp
  show ?thesis
    using a m capped_after_five_rounds [OF a m, of clock_tools "[user_turn (ustr ''loop'')]"]
    by simp
qed

section \<open>What a woken message is answered with\<close>












end
